theory Spec2Isabelle
  imports Main
begin

section \<open>The pin pattern\<close>

text \<open>
  \<^verbatim>\<open>SHA_PATTERN = re.compile(r".+@[a-f0-9]{40}$")\<close> is built from four kinds of
  item only: a single atom, an atom repeated one or more times, an atom repeated a fixed
  number of times, and the end anchor. An atom is the dot (any character but the line
  feed, as no flag is given), a literal character, or a class of ranges.
\<close>

datatype atom = AnyChar | Lit char | CharClass "(char \<times> char) list"

datatype item = One atom | OneOrMore atom | Exactly nat atom | EndAnchor

type_synonym regex = "item list"

definition newline :: char where
  "newline = CHR 0x0A"

fun in_range :: "char \<Rightarrow> char \<times> char \<Rightarrow> bool" where
  "in_range c (lo, hi) = ((of_char lo :: nat) \<le> of_char c \<and> (of_char c :: nat) \<le> of_char hi)"

fun atom_ok :: "atom \<Rightarrow> char \<Rightarrow> bool" where
  "atom_ok AnyChar c = (c \<noteq> newline)"
| "atom_ok (Lit d) c = (c = d)"
| "atom_ok (CharClass rs) c = list_ex (in_range c) rs"

text \<open>
  The matcher backtracks, so each item maps the text still to be read to the list of all
  the texts that can remain once the item has matched a prefix of it (the longest match
  first, as the greedy \<^verbatim>\<open>+\<close> tries them).
\<close>

fun one_or_more :: "atom \<Rightarrow> string \<Rightarrow> string list" where
  "one_or_more a [] = []"
| "one_or_more a (c # cs) = (if atom_ok a c then one_or_more a cs @ [cs] else [])"

fun exactly :: "nat \<Rightarrow> atom \<Rightarrow> string \<Rightarrow> string list" where
  "exactly 0 a s = [s]"
| "exactly (Suc n) a [] = []"
| "exactly (Suc n) a (c # cs) = (if atom_ok a c then exactly n a cs else [])"

text \<open>
  Without the MULTILINE flag, \<^verbatim>\<open>$\<close> holds at the end of the text and also just before
  a line feed that is the last character of the text. It consumes nothing.
\<close>

fun rests :: "item \<Rightarrow> string \<Rightarrow> string list" where
  "rests (One a) [] = []"
| "rests (One a) (c # cs) = (if atom_ok a c then [cs] else [])"
| "rests (OneOrMore a) s = one_or_more a s"
| "rests (Exactly n a) s = exactly n a s"
| "rests EndAnchor s = (if s = [] \<or> s = [newline] then [s] else [])"

fun run :: "regex \<Rightarrow> string \<Rightarrow> string list" where
  "run [] s = [s]"
| "run (i # is) s = concat (map (run is) (rests i s))"

text \<open>
  \<^verbatim>\<open>pattern.match(s)\<close> looks for a match that starts at the first character; the match
  need not reach the end of the text.
\<close>

definition re_match :: "regex \<Rightarrow> string \<Rightarrow> bool" where
  "re_match r s = (run r s \<noteq> [])"

definition SHA_PATTERN :: regex where
  "SHA_PATTERN =
     [OneOrMore AnyChar, One (Lit CHR ''@''),
      Exactly 40 (CharClass [(CHR ''a'', CHR ''f''), (CHR ''0'', CHR ''9'')]), EndAnchor]"

section \<open>Parsed documents\<close>

text \<open>
  The tree that \<^verbatim>\<open>yaml.load\<close> returns: null, boolean, integer and string scalars,
  sequences, and mappings. A mapping keeps its entries in source order; an entry holds
  the key, the 0-based line of the key as \<^verbatim>\<open>lc.data\<close> records it (\<open>None\<close> when the
  mapping has no position for that key), and the value. Floats, timestamps and tagged
  nodes are left out.
\<close>

datatype scalar = SNull | SBool bool | SInt int | SStr string

datatype yaml =
    Scalar scalar
  | Seq "yaml list"
  | Mapping "(scalar \<times> nat option \<times> yaml) list"

type_synonym entries = "(scalar \<times> nat option \<times> yaml) list"

text \<open>\<^verbatim>\<open>d.get(k)\<close>, \<^verbatim>\<open>k in d\<close> and \<^verbatim>\<open>d[k]\<close> for a string key \<open>k\<close>.\<close>

fun get_item :: "entries \<Rightarrow> string \<Rightarrow> yaml option" where
  "get_item [] k = None"
| "get_item ((k', lc, v) # es) k = (if k' = SStr k then Some v else get_item es k)"

text \<open>\<^verbatim>\<open>d.lc.data\<close>: the recorded line of a key, if any.\<close>

fun lc_data :: "entries \<Rightarrow> string \<Rightarrow> nat option" where
  "lc_data [] k = None"
| "lc_data ((k', lc, v) # es) k = (if k' = SStr k then lc else lc_data es k)"

text \<open>Python's truth value of a loaded node.\<close>

fun truthy :: "yaml \<Rightarrow> bool" where
  "truthy (Scalar SNull) = False"
| "truthy (Scalar (SBool b)) = b"
| "truthy (Scalar (SInt n)) = (n \<noteq> 0)"
| "truthy (Scalar (SStr s)) = (s \<noteq> [])"
| "truthy (Seq xs) = (xs \<noteq> [])"
| "truthy (Mapping es) = (es \<noteq> [])"

section \<open>Exceptions, output and the file system\<close>

text \<open>An exception is recorded with its class and the source line that raises it.\<close>

datatype exn = UnboundLocalError | AttributeError | KeyError | TypeError | OverflowError

datatype py_error = Raised exn nat

text \<open>The lines the program prints, in the order of the \<^verbatim>\<open>print\<close> calls in the source.\<close>

datatype line =
    Checking
  | FilesToLookAt "string list"
  | Warning string string
  | IgnoringAllowed string nat yaml
  | NotPinned string nat yaml
  | SomeUnpinned
  | BestPractice
  | AllPinned

text \<open>
  What the program reads from outside: \<open>isfile\<close> and \<open>isdir\<close> are \<^verbatim>\<open>os.path.isfile\<close>
  and \<^verbatim>\<open>os.path.isdir\<close> on a path string, \<open>fd_isdir\<close> says whether an integer, taken as
  an open file descriptor, is a directory, \<open>load\<close> is \<^verbatim>\<open>open\<close> followed by
  \<^verbatim>\<open>yaml.load\<close> (\<open>Inl\<close> the message of the exception it raised), and \<open>rglob\<close> lists
  \<^verbatim>\<open>Path(d).rglob("*.yml")\<close> as strings.
\<close>

record world =
  isfile :: "string \<Rightarrow> bool"
  isdir :: "string \<Rightarrow> bool"
  fd_isdir :: "int \<Rightarrow> bool"
  load :: "string \<Rightarrow> string + yaml"
  rglob :: "string \<Rightarrow> string list"

section \<open>get\_uses\_statements\<close>

type_synonym uses = "yaml \<times> nat"

text \<open>Lines 54 to 56: the step containers to scan.\<close>

definition step_operations :: "entries \<Rightarrow> py_error + yaml list" where
  "step_operations content =
     (case get_item content ''runs'' of
        Some r \<Rightarrow> Inr [r]
      | None \<Rightarrow>
          (case get_item content ''jobs'' of
             None \<Rightarrow> Inl (Raised KeyError 55)
           | Some (Mapping js) \<Rightarrow> Inr (map (\<lambda>(k, lc, v). v) js)
           | Some _ \<Rightarrow> Inl (Raised AttributeError 55)))"

text \<open>
  What the \<^verbatim>\<open>for\<close> of line 58 iterates over: the elements of a sequence, the keys of a
  mapping, the characters of a string; any other scalar is not iterable.
\<close>

fun iterate :: "yaml \<Rightarrow> py_error + yaml list" where
  "iterate (Seq xs) = Inr xs"
| "iterate (Mapping es) = Inr (map (\<lambda>(k, lc, v). Scalar k) es)"
| "iterate (Scalar (SStr s)) = Inr (map (\<lambda>c. Scalar (SStr [c])) s)"
| "iterate (Scalar _) = Inl (Raised TypeError 58)"

text \<open>Lines 59 to 66: one step.\<close>

fun scan_step :: "uses list \<Rightarrow> yaml \<Rightarrow> py_error + uses list" where
  "scan_step uses_statements (Mapping step) =
     (case get_item step ''uses'' of
        None \<Rightarrow> Inr uses_statements
      | Some uses_value \<Rightarrow>
          if truthy uses_value
          then Inr (uses_statements @
                 [(uses_value, case lc_data step ''uses'' of None \<Rightarrow> 0 | Some l \<Rightarrow> l + 1)])
          else Inr uses_statements)"
| "scan_step uses_statements _ = Inl (Raised AttributeError 59)"

fun scan_steps :: "uses list \<Rightarrow> yaml list \<Rightarrow> py_error + uses list" where
  "scan_steps uses_statements [] = Inr uses_statements"
| "scan_steps uses_statements (step # steps) =
     (case scan_step uses_statements step of
        Inl e \<Rightarrow> Inl e
      | Inr uses_statements' \<Rightarrow> scan_steps uses_statements' steps)"

text \<open>Line 58 for one step container: \<^verbatim>\<open>step_data.get("steps", [])\<close>, then the loop.\<close>

fun scan_step_data :: "uses list \<Rightarrow> yaml \<Rightarrow> py_error + uses list" where
  "scan_step_data uses_statements (Mapping step_data) =
     (case iterate (case get_item step_data ''steps'' of None \<Rightarrow> Seq [] | Some v \<Rightarrow> v) of
        Inl e \<Rightarrow> Inl e
      | Inr steps \<Rightarrow> scan_steps uses_statements steps)"
| "scan_step_data uses_statements _ = Inl (Raised AttributeError 58)"

fun scan_step_operations :: "uses list \<Rightarrow> yaml list \<Rightarrow> py_error + uses list" where
  "scan_step_operations uses_statements [] = Inr uses_statements"
| "scan_step_operations uses_statements (step_data # rest) =
     (case scan_step_data uses_statements step_data of
        Inl e \<Rightarrow> Inl e
      | Inr uses_statements' \<Rightarrow> scan_step_operations uses_statements' rest)"

text \<open>
  Lines 47 to 68, once \<open>content\<close> is bound. \<^verbatim>\<open>not content\<close> is tested first;
  \<^verbatim>\<open>content.keys()\<close> exists on a mapping only.
\<close>

fun scan_content :: "yaml \<Rightarrow> py_error + uses list" where
  "scan_content (Mapping content) =
     (if \<not> truthy (Mapping content) then Inr []
      else if get_item content ''jobs'' = None \<and> get_item content ''runs'' = None then Inr []
      else (case step_operations content of
              Inl e \<Rightarrow> Inl e
            | Inr ops \<Rightarrow> scan_step_operations [] ops))"
| "scan_content content =
     (if \<not> truthy content then Inr [] else Inl (Raised AttributeError 48))"

text \<open>
  Lines 40 to 49. The handler of line 44 prints the warning and falls through, so line 48
  reads \<open>content\<close>, which was never assigned.
\<close>

definition get_uses_statements :: "world \<Rightarrow> string \<Rightarrow> line list \<times> (py_error + uses list)" where
  "get_uses_statements w file_path =
     (case load w file_path of
        Inl e \<Rightarrow> ([Warning file_path e], Inl (Raised UnboundLocalError 48))
      | Inr content \<Rightarrow> ([], scan_content content))"

section \<open>validate\_workflow\_files\<close>

text \<open>The running state: the lines printed so far and the flag \<^verbatim>\<open>fail\<close>.\<close>

record vstate =
  out :: "line list"
  failed :: bool

text \<open>
  \<^verbatim>\<open>os.path.isdir\<close> answers for a string; an integer (a boolean is one) is taken as a
  file descriptor, which must fit a C int; \<^verbatim>\<open>os.stat\<close> rejects any other argument.
\<close>

fun os_path_isdir :: "world \<Rightarrow> yaml \<Rightarrow> py_error + bool" where
  "os_path_isdir w (Scalar (SStr s)) = Inr (isdir w s)"
| "os_path_isdir w (Scalar (SInt n)) =
     (if n < - (2 ^ 31) \<or> 2 ^ 31 \<le> n then Inl (Raised OverflowError 108)
      else Inr (fd_isdir w n))"
| "os_path_isdir w (Scalar (SBool b)) = Inr (fd_isdir w (if b then 1 else 0))"
| "os_path_isdir w _ = Inl (Raised TypeError 108)"

text \<open>\<^verbatim>\<open>SHA_PATTERN.match\<close> takes a string.\<close>

fun sha_pattern_match :: "yaml \<Rightarrow> py_error + bool" where
  "sha_pattern_match (Scalar (SStr s)) = Inr (re_match SHA_PATTERN s)"
| "sha_pattern_match _ = Inl (Raised TypeError 111)"

text \<open>Lines 107 to 123: the body of the inner loop.\<close>

definition check_uses_value ::
  "world \<Rightarrow> string list \<Rightarrow> string \<Rightarrow> vstate \<Rightarrow> uses \<Rightarrow> py_error + vstate" where
  "check_uses_value w allow_unpinned file_path st u =
     (case u of (uses_value, line_num) \<Rightarrow>
        (case os_path_isdir w uses_value of
           Inl e \<Rightarrow> Inl e
         | Inr True \<Rightarrow> Inr st
         | Inr False \<Rightarrow>
             (case sha_pattern_match uses_value of
                Inl e \<Rightarrow> Inl e
              | Inr True \<Rightarrow> Inr st
              | Inr False \<Rightarrow>
                  if uses_value \<in> set (map (\<lambda>a. Scalar (SStr a)) allow_unpinned)
                  then Inr (st\<lparr>out := out st @ [IgnoringAllowed file_path line_num uses_value]\<rparr>)
                  else Inr (st\<lparr>failed := True,
                                out := out st @ [NotPinned file_path line_num uses_value]\<rparr>))))"

text \<open>The loops keep what was printed before an exception.\<close>

fun check_uses ::
  "world \<Rightarrow> string list \<Rightarrow> string \<Rightarrow> vstate \<Rightarrow> uses list \<Rightarrow> vstate \<times> py_error option" where
  "check_uses w allow_unpinned file_path st [] = (st, None)"
| "check_uses w allow_unpinned file_path st (u # us) =
     (case check_uses_value w allow_unpinned file_path st u of
        Inl e \<Rightarrow> (st, Some e)
      | Inr st' \<Rightarrow> check_uses w allow_unpinned file_path st' us)"

text \<open>Python's \<^verbatim>\<open>sub in text\<close> on strings.\<close>

fun str_contains :: "string \<Rightarrow> string \<Rightarrow> bool" where
  "str_contains sub [] = (sub = [])"
| "str_contains sub (c # cs) = (take (length sub) (c # cs) = sub \<or> str_contains sub cs)"

text \<open>Lines 99 to 104: the two tests that skip a candidate.\<close>

definition skipped :: "world \<Rightarrow> string \<Rightarrow> bool" where
  "skipped w file_path =
     (if \<not> str_contains ''.github/workflows'' file_path
         \<and> \<not> str_contains ''.github/actions'' file_path then True
      else if \<not> isfile w file_path then True
      else False)"

fun check_files ::
  "world \<Rightarrow> string list \<Rightarrow> vstate \<Rightarrow> string list \<Rightarrow> vstate \<times> py_error option" where
  "check_files w allow_unpinned st [] = (st, None)"
| "check_files w allow_unpinned st (file_path # files) =
     (if skipped w file_path then check_files w allow_unpinned st files
      else (case get_uses_statements w file_path of
              (printed, Inl e) \<Rightarrow> (st\<lparr>out := out st @ printed\<rparr>, Some e)
            | (printed, Inr us) \<Rightarrow>
                (case check_uses w allow_unpinned file_path (st\<lparr>out := out st @ printed\<rparr>) us of
                   (st', Some e) \<Rightarrow> (st', Some e)
                 | (st', None) \<Rightarrow> check_files w allow_unpinned st' files)))"

text \<open>Lines 88 to 96: the candidates, and the line printed when they are discovered.\<close>

definition candidates :: "world \<Rightarrow> string list \<Rightarrow> string list" where
  "candidates w changed_files =
     (if changed_files = []
      then rglob w ''.github/workflows'' @ rglob w ''.github/actions''
      else changed_files)"

definition validate_workflow_files ::
  "world \<Rightarrow> string list \<Rightarrow> string list \<Rightarrow> bool \<Rightarrow> line list \<times> (py_error + int)" where
  "validate_workflow_files w changed_files allow_unpinned fail_on_error =
     (let st0 = \<lparr>out = [Checking] @
                   (if changed_files = [] then [FilesToLookAt (candidates w changed_files)]
                    else []),
                 failed = False\<rparr>
      in case check_files w allow_unpinned st0 (candidates w changed_files) of
           (st, Some e) \<Rightarrow> (out st, Inl e)
         | (st, None) \<Rightarrow>
             if failed st
             then (out st @ [SomeUnpinned, BestPractice], Inr (if fail_on_error then 1 else 0))
             else (out st @ [AllPinned], Inr 0))"

section \<open>main\<close>

text \<open>
  \<^verbatim>\<open>str.split()\<close> cuts at runs of whitespace and returns no empty piece; \<^verbatim>\<open>strip\<close>
  removes whitespace at both ends; \<^verbatim>\<open>lower\<close> maps the capital letters. Characters
  are bytes here, so only the ASCII whitespace and letters are covered.
\<close>

definition is_space :: "char \<Rightarrow> bool" where
  "is_space c = ((9 \<le> (of_char c :: nat) \<and> (of_char c :: nat) \<le> 13)
                 \<or> (28 \<le> (of_char c :: nat) \<and> (of_char c :: nat) \<le> 32))"

fun split_from :: "string \<Rightarrow> string \<Rightarrow> string list" where
  "split_from cur [] = (if cur = [] then [] else [cur])"
| "split_from cur (c # cs) =
     (if is_space c then (if cur = [] then split_from [] cs else cur # split_from [] cs)
      else split_from (cur @ [c]) cs)"

definition str_split :: "string \<Rightarrow> string list" where
  "str_split s = split_from [] s"

definition str_strip :: "string \<Rightarrow> string" where
  "str_strip s = rev (dropWhile is_space (rev (dropWhile is_space s)))"

definition str_lower :: "string \<Rightarrow> string" where
  "str_lower s = map (\<lambda>c. if 65 \<le> (of_char c :: nat) \<and> (of_char c :: nat) \<le> 90
                       then char_of (of_char c + (32 :: nat)) else c) s"

type_synonym environ = "string \<Rightarrow> string option"

definition environ_get :: "environ \<Rightarrow> string \<Rightarrow> string \<Rightarrow> string" where
  "environ_get env k d = (case env k of None \<Rightarrow> d | Some v \<Rightarrow> v)"

text \<open>Lines 140 to 146: the three inputs as \<open>main\<close> reads them.\<close>

definition main_changed_files :: "environ \<Rightarrow> string list" where
  "main_changed_files env =
     map str_strip (filter (\<lambda>f. str_strip f \<noteq> []) (str_split (environ_get env ''ALL_CHANGED_FILES'' [])))"

definition main_allow_unpinned :: "environ \<Rightarrow> string list" where
  "main_allow_unpinned env =
     map str_strip (filter (\<lambda>a. str_strip a \<noteq> []) (str_split (environ_get env ''ALLOW_UNPINNED'' [])))"

definition main_fail_on_error :: "environ \<Rightarrow> bool" where
  "main_fail_on_error env =
     (str_lower (environ_get env ''FAIL_ON_ERROR'' ''true'') \<in> set [''true'', ''1'', ''yes''])"

text \<open>Line 148: \<^verbatim>\<open>sys.exit\<close> of what \<open>validate_workflow_files\<close> returns.\<close>

definition main :: "world \<Rightarrow> environ \<Rightarrow> line list \<times> (py_error + int)" where
  "main w env =
     validate_workflow_files w (main_changed_files env) (main_allow_unpinned env)
       (main_fail_on_error env)"

section \<open>Notions of the specification\<close>

text \<open>The sixteen characters of the class \<^verbatim>\<open>[a-f0-9]\<close>.\<close>

definition hex_digits :: string where
  "hex_digits = ''0123456789abcdef''"

text \<open>The run of hexadecimal digits at the end of a reference.\<close>

definition trailing_hex_run :: "string \<Rightarrow> nat" where
  "trailing_hex_run s = length (takeWhile (\<lambda>c. c \<in> set hex_digits) (rev s))"

text \<open>
  The classifier of the specification: four dispositions, decided in the order Local,
  Pinned, Allowed, Violation, the first match winning; and what each disposition does to
  the running state.
\<close>

datatype disposition = Local | Pinned | Allowed | Violation

definition classification :: "world \<Rightarrow> string list \<Rightarrow> string \<Rightarrow> disposition" where
  "classification w allow_list s =
     (if isdir w s then Local
      else if re_match SHA_PATTERN s then Pinned
      else if s \<in> set allow_list then Allowed
      else Violation)"

fun disposition_effect :: "disposition \<Rightarrow> string \<Rightarrow> nat \<Rightarrow> string \<Rightarrow> vstate \<Rightarrow> vstate" where
  "disposition_effect Local file_path line_num s st = st"
| "disposition_effect Pinned file_path line_num s st = st"
| "disposition_effect Allowed file_path line_num s st =
     st\<lparr>out := out st @ [IgnoringAllowed file_path line_num (Scalar (SStr s))]\<rparr>"
| "disposition_effect Violation file_path line_num s st =
     st\<lparr>failed := True, out := out st @ [NotPinned file_path line_num (Scalar (SStr s))]\<rparr>"

text \<open>
  A step of the data model is a mapping whose \<^verbatim>\<open>uses\<close> field, when present, is not a
  number or a boolean. Its value is empty when it is null, the empty string, the empty
  sequence or the empty mapping. A step contributes its \<^verbatim>\<open>uses\<close> value with the
  1-based line when that value is not empty, and nothing otherwise.
\<close>

fun empty_value :: "yaml \<Rightarrow> bool" where
  "empty_value (Scalar SNull) = True"
| "empty_value (Scalar (SStr s)) = (s = [])"
| "empty_value (Seq xs) = (xs = [])"
| "empty_value (Mapping es) = (es = [])"
| "empty_value (Scalar _) = False"

fun is_number :: "yaml \<Rightarrow> bool" where
  "is_number (Scalar (SBool b)) = True"
| "is_number (Scalar (SInt n)) = True"
| "is_number _ = False"

fun is_step :: "yaml \<Rightarrow> bool" where
  "is_step (Mapping step) =
     (case get_item step ''uses'' of None \<Rightarrow> True | Some v \<Rightarrow> \<not> is_number v)"
| "is_step _ = False"

fun contribution :: "yaml \<Rightarrow> uses list" where
  "contribution (Mapping step) =
     (case get_item step ''uses'' of
        None \<Rightarrow> []
      | Some v \<Rightarrow>
          if empty_value v then []
          else [(v, case lc_data step ''uses'' of None \<Rightarrow> 0 | Some l \<Rightarrow> l + 1)])"
| "contribution _ = []"

text \<open>
  A step container of the data model is a mapping whose \<^verbatim>\<open>steps\<close> field, when
  present, is a sequence of steps; these are the steps scanned in it.
\<close>

fun steps_of :: "yaml \<Rightarrow> yaml list" where
  "steps_of (Mapping step_data) =
     (case get_item step_data ''steps'' of Some (Seq steps) \<Rightarrow> steps | _ \<Rightarrow> [])"
| "steps_of _ = []"

fun is_step_container :: "yaml \<Rightarrow> bool" where
  "is_step_container (Mapping step_data) =
     (case get_item step_data ''steps'' of
        None \<Rightarrow> True
      | Some (Seq steps) \<Rightarrow> list_all is_step steps
      | Some _ \<Rightarrow> False)"
| "is_step_container _ = False"

fun is_mapping :: "yaml \<Rightarrow> bool" where
  "is_mapping (Mapping es) = True"
| "is_mapping _ = False"





section \<open>Example repositories\<close>

text \<open>
  A repository is given by its files, each with what loading it returns, and its
  directories. No file descriptor is a directory, and discovery lists the files below a
  directory whose name ends in \<^verbatim>\<open>.yml\<close>.
\<close>

definition ends_with :: "string \<Rightarrow> string \<Rightarrow> bool" where
  "ends_with suffix s = (drop (length s - length suffix) s = suffix)"

definition repository :: "(string \<times> (string + yaml)) list \<Rightarrow> string list \<Rightarrow> world" where
  "repository files dirs =
     \<lparr>isfile = (\<lambda>p. p \<in> set (map fst files)),
      isdir = (\<lambda>p. p \<in> set dirs),
      fd_isdir = (\<lambda>n. False),
      load = (\<lambda>p. case map_of files p of
                     None \<Rightarrow> Inl ''No such file or directory''
                   | Some r \<Rightarrow> r),
      rglob = (\<lambda>d. filter (\<lambda>p. take (length d + 1) p = d @ ''/'' \<and> ends_with ''.yml'' p)
                      (map fst files))\<rparr>"

definition ci_yml :: string where
  "ci_yml = ''.github/workflows/ci.yml''"

definition broken_yml :: string where
  "broken_yml = ''.github/workflows/broken.yml''"

definition notes_yml :: string where
  "notes_yml = ''.github/workflows/notes.yml''"

definition action_yml :: string where
  "action_yml = ''.github/actions/build/action.yml''"

text \<open>
  A workflow with one job of two steps, the first using \<^verbatim>\<open>actions/checkout@v4\<close> on
  the fifth line of the file.
\<close>

definition build_job :: yaml where
  "build_job =
     Mapping [(SStr ''steps'', Some 3,
       Seq [Mapping [(SStr ''uses'', Some 4, Scalar (SStr ''actions/checkout@v4''))],
            Mapping [(SStr ''run'', Some 5, Scalar (SStr ''make''))]])]"

definition ci_doc :: yaml where
  "ci_doc =
     Mapping [(SStr ''name'', Some 0, Scalar (SStr ''ci'')),
              (SStr ''jobs'', Some 1, Mapping [(SStr ''build'', Some 2, build_job)])]"

text \<open>An action file whose \<^verbatim>\<open>runs\<close> value is a string.\<close>

definition action_doc :: yaml where
  "action_doc = Mapping [(SStr ''runs'', Some 0, Scalar (SStr ''composite''))]"

definition tidy_repository :: world where
  "tidy_repository = repository [(ci_yml, Inr ci_doc)] []"

definition extended_repository :: world where
  "extended_repository =
     repository [(ci_yml, Inr ci_doc), (''docs/notes.yml'', Inr (Scalar (SStr ''hello'')))] []"

text \<open>
  A repository with a file that does not parse, a file whose root is the string
  \<^verbatim>\<open>hello\<close>, and the workflow above.
\<close>

definition messy_repository :: world where
  "messy_repository =
     repository [(broken_yml, Inl ''mapping values are not allowed here''),
                 (notes_yml, Inr (Scalar (SStr ''hello''))),
                 (ci_yml, Inr ci_doc)] []"

definition action_repository :: world where
  "action_repository = repository [(action_yml, Inr action_doc), (ci_yml, Inr ci_doc)] []"

text \<open>A directory whose name has the form of a pinned reference.\<close>

definition pinned_dir :: string where
  "pinned_dir = ''foo@0000000000000000000000000000000000000000''"

definition local_repository :: world where
  "local_repository = repository [] [pinned_dir]"

definition start :: vstate where
  "start = \<lparr>out = [Checking], failed = False\<rparr>"

definition checkout_sha :: string where
  "checkout_sha = ''actions/checkout@8f4b7f84864484a7bf31766abe9204da3cbe65b1''"

section \<open>The pin pattern, characterised\<close>

lemmas run_defs =
  validate_workflow_files_def candidates_def skipped_def get_uses_statements_def
  step_operations_def check_uses_value_def SHA_PATTERN_def re_match_def newline_def
  eval_nat_numeral

lemmas tidy_defs =
  repository_def ends_with_def ci_yml_def ci_doc_def build_job_def tidy_repository_def

lemma set_one_or_more:
  "set (one_or_more a s) = {r. \<exists>p. s = p @ r \<and> p \<noteq> [] \<and> (\<forall>c\<in>set p. atom_ok a c)}"
proof (induction s)
  case Nil
  then show ?case by simp
next
  case (Cons c cs)
  show ?case
  proof (cases "atom_ok a c")
    case True
    have "{r. \<exists>p. c # cs = p @ r \<and> p \<noteq> [] \<and> (\<forall>x\<in>set p. atom_ok a x)}
        = insert cs {r. \<exists>p. cs = p @ r \<and> p \<noteq> [] \<and> (\<forall>x\<in>set p. atom_ok a x)}"
      (is "?L = insert cs ?R")
    proof (intro set_eqI iffI)
      fix r assume "r \<in> ?L"
      then obtain p where p: "c # cs = p @ r" "p \<noteq> []" "\<forall>x\<in>set p. atom_ok a x" by blast
      then obtain q where q: "p = c # q" "cs = q @ r" by (cases p) auto
      show "r \<in> insert cs ?R"
      proof (cases q)
        case Nil
        with q show ?thesis by simp
      next
        case (Cons y ys)
        with p q show ?thesis by auto
      qed
    next
      fix r assume "r \<in> insert cs ?R"
      then consider "r = cs" | "r \<in> ?R" by blast
      then show "r \<in> ?L"
      proof cases
        case 1
        then have "c # cs = [c] @ r" by simp
        with True show ?thesis by (intro CollectI exI[of _ "[c]"]) simp
      next
        case 2
        then obtain p where p: "cs = p @ r" "p \<noteq> []" "\<forall>x\<in>set p. atom_ok a x" by blast
        with True show ?thesis by (intro CollectI exI[of _ "c # p"]) simp
      qed
    qed
    with True Cons show ?thesis by simp
  next
    case False
    have "\<And>p r. c # cs = p @ r \<Longrightarrow> p \<noteq> [] \<Longrightarrow> \<not> (\<forall>x\<in>set p. atom_ok a x)"
    proof -
      fix p r assume "c # cs = p @ r" "p \<noteq> []"
      then have "hd p = c" by (cases p) auto
      with \<open>p \<noteq> []\<close> False show "\<not> (\<forall>x\<in>set p. atom_ok a x)" by (cases p) auto
    qed
    with False show ?thesis by auto
  qed
qed

lemma set_exactly:
  "set (exactly n a s) = {r. \<exists>h. s = h @ r \<and> length h = n \<and> (\<forall>c\<in>set h. atom_ok a c)}"
proof (induction n a s rule: exactly.induct)
  case (1 a s)
  then show ?case by auto
next
  case (2 n a)
  then show ?case by auto
next
  case (3 n a c cs)
  show ?case
  proof (cases "atom_ok a c")
    case True
    have "{r. \<exists>h. c # cs = h @ r \<and> length h = Suc n \<and> (\<forall>x\<in>set h. atom_ok a x)}
        = {r. \<exists>h. cs = h @ r \<and> length h = n \<and> (\<forall>x\<in>set h. atom_ok a x)}" (is "?L = ?R")
    proof (intro set_eqI iffI)
      fix r assume "r \<in> ?L"
      then obtain h where h: "c # cs = h @ r" "length h = Suc n" "\<forall>x\<in>set h. atom_ok a x" by blast
      then obtain q where "h = c # q" "cs = q @ r" by (cases h) auto
      with h show "r \<in> ?R" by auto
    next
      fix r assume "r \<in> ?R"
      then obtain h where h: "cs = h @ r" "length h = n" "\<forall>x\<in>set h. atom_ok a x" by blast
      with True show "r \<in> ?L" by (intro CollectI exI[of _ "c # h"]) simp
    qed
    with True 3 show ?thesis by simp
  next
    case False
    have "\<And>h r. c # cs = h @ r \<Longrightarrow> length h = Suc n \<Longrightarrow> \<not> (\<forall>x\<in>set h. atom_ok a x)"
    proof -
      fix h r assume "c # cs = h @ r" "length h = Suc n"
      then obtain q where "h = c # q" by (cases h) auto
      with False show "\<not> (\<forall>x\<in>set h. atom_ok a x)" by simp
    qed
    with False show ?thesis by auto
  qed
qed

lemma hex_class_iff:
  "atom_ok (CharClass [(CHR ''a'', CHR ''f''), (CHR ''0'', CHR ''9'')]) c \<longleftrightarrow> c \<in> set hex_digits"
proof
  assume "atom_ok (CharClass [(CHR ''a'', CHR ''f''), (CHR ''0'', CHR ''9'')]) c"
  then have "(97 \<le> (of_char c :: nat) \<and> (of_char c :: nat) \<le> 102)
           \<or> (48 \<le> (of_char c :: nat) \<and> (of_char c :: nat) \<le> 57)"
    by simp
  then have "(of_char c :: nat) \<in> {97, 98, 99, 100, 101, 102, 48, 49, 50, 51, 52, 53, 54, 55, 56, 57}"
    by auto arith+
  then have "(of_char c :: nat) \<in> of_char ` set hex_digits"
    by (auto simp: hex_digits_def)
  then obtain d where "d \<in> set hex_digits" "(of_char c :: nat) = of_char d"
    by blast
  then show "c \<in> set hex_digits"
    by simp
next
  assume "c \<in> set hex_digits"
  then show "atom_ok (CharClass [(CHR ''a'', CHR ''f''), (CHR ''0'', CHR ''9'')]) c"
    by (auto simp: hex_digits_def)
qed

lemma set_run_Cons: "set (run (i # is) s) = (\<Union>r\<in>set (rests i s). set (run is r))"
  by simp

lemma set_run_Nil: "set (run [] s) = {s}"
  by simp

lemma set_run_SHA_PATTERN:
  "set (run SHA_PATTERN s) =
     (\<Union>r1\<in>set (one_or_more AnyChar s).
      \<Union>r2\<in>set (rests (One (Lit CHR ''@'')) r1).
      \<Union>r3\<in>set (exactly 40 (CharClass [(CHR ''a'', CHR ''f''), (CHR ''0'', CHR ''9'')]) r2).
      \<Union>t\<in>set (rests EndAnchor r3). {t})"
  unfolding SHA_PATTERN_def set_run_Cons set_run_Nil rests.simps(3,4) ..

lemma rests_One_Lit: "r2 \<in> set (rests (One (Lit d)) r1) \<longleftrightarrow> r1 = d # r2"
  by (cases r1) auto

lemma rests_EndAnchor: "t \<in> set (rests EndAnchor r3) \<longleftrightarrow> t = r3 \<and> (t = [] \<or> t = [newline])"
  by auto

lemma run_SHA_PATTERN:
  "set (run SHA_PATTERN s) =
     {t. \<exists>p h. s = p @ CHR ''@'' # h @ t \<and> p \<noteq> [] \<and> newline \<notin> set p \<and> length h = 40
        \<and> set h \<subseteq> set hex_digits \<and> (t = [] \<or> t = [newline])}" (is "?L = ?R")
proof (intro set_eqI iffI)
  fix t assume "t \<in> ?L"
  then obtain r1 r2 r3 where
    r1: "r1 \<in> set (one_or_more AnyChar s)" and
    r2: "r2 \<in> set (rests (One (Lit CHR ''@'')) r1)" and
    r3: "r3 \<in> set (exactly 40 (CharClass [(CHR ''a'', CHR ''f''), (CHR ''0'', CHR ''9'')]) r2)" and
    t: "t \<in> set (rests EndAnchor r3)"
    unfolding set_run_SHA_PATTERN by blast
  from r1 obtain p where p: "s = p @ r1" "p \<noteq> []" "\<forall>c\<in>set p. atom_ok AnyChar c"
    unfolding set_one_or_more by blast
  from r2 have r1': "r1 = CHR ''@'' # r2"
    by (simp only: rests_One_Lit)
  from r3 obtain h where h: "r2 = h @ r3" "length h = 40"
      "\<forall>c\<in>set h. atom_ok (CharClass [(CHR ''a'', CHR ''f''), (CHR ''0'', CHR ''9'')]) c"
    unfolding set_exactly by blast
  from t have t': "t = r3" "t = [] \<or> t = [newline]"
    unfolding rests_EndAnchor by blast+
  from p have "newline \<notin> set p" by auto
  moreover from h have "set h \<subseteq> set hex_digits" using hex_class_iff by blast
  ultimately show "t \<in> ?R" using p r1' h t' by blast
next
  fix t assume "t \<in> ?R"
  then obtain p h where s: "s = p @ CHR ''@'' # h @ t" and p: "p \<noteq> []" "newline \<notin> set p"
    and h: "length h = 40" "set h \<subseteq> set hex_digits" and t: "t = [] \<or> t = [newline]"
    by blast
  from p s have 1: "CHR ''@'' # h @ t \<in> set (one_or_more AnyChar s)"
    unfolding set_one_or_more by auto
  have 2: "h @ t \<in> set (rests (One (Lit CHR ''@'')) (CHR ''@'' # h @ t))"
    by (simp only: rests_One_Lit)
  from h have 3: "t \<in> set (exactly 40 (CharClass [(CHR ''a'', CHR ''f''), (CHR ''0'', CHR ''9'')]) (h @ t))"
    unfolding set_exactly using hex_class_iff by blast
  from t have 4: "t \<in> set (rests EndAnchor t)"
    by (simp only: rests_EndAnchor)
  from 1 2 3 4 show "t \<in> ?L"
    unfolding set_run_SHA_PATTERN by blast
qed

lemma sha_match_iff:
  "re_match SHA_PATTERN s \<longleftrightarrow>
     (\<exists>p h t. s = p @ CHR ''@'' # h @ t \<and> p \<noteq> [] \<and> newline \<notin> set p \<and> length h = 40
        \<and> set h \<subseteq> set hex_digits \<and> (t = [] \<or> t = [newline]))"
proof -
  have "re_match SHA_PATTERN s \<longleftrightarrow> set (run SHA_PATTERN s) \<noteq> {}"
    by (simp add: re_match_def)
  then show ?thesis unfolding run_SHA_PATTERN by blast
qed

lemma sha_match_no_newline:
  assumes "newline \<notin> set s"
  shows "re_match SHA_PATTERN s \<longleftrightarrow>
     (\<exists>p h. s = p @ CHR ''@'' # h \<and> p \<noteq> [] \<and> length h = 40 \<and> set h \<subseteq> set hex_digits)"
proof
  assume "re_match SHA_PATTERN s"
  then obtain p h t where *: "s = p @ CHR ''@'' # h @ t" "p \<noteq> []" "length h = 40"
      "set h \<subseteq> set hex_digits" "t = [] \<or> t = [newline]"
    unfolding sha_match_iff by blast
  with assms have "t = []" by auto
  with * show "\<exists>p h. s = p @ CHR ''@'' # h \<and> p \<noteq> [] \<and> length h = 40 \<and> set h \<subseteq> set hex_digits"
    by auto
next
  assume "\<exists>p h. s = p @ CHR ''@'' # h \<and> p \<noteq> [] \<and> length h = 40 \<and> set h \<subseteq> set hex_digits"
  then obtain p h where *: "s = p @ CHR ''@'' # h" "p \<noteq> []" "length h = 40" "set h \<subseteq> set hex_digits"
    by blast
  with assms have "newline \<notin> set p" by auto
  with * have "s = p @ CHR ''@'' # h @ [] \<and> p \<noteq> [] \<and> newline \<notin> set p \<and> length h = 40
        \<and> set h \<subseteq> set hex_digits \<and> ([] = [] \<or> [] = [newline])" by simp
  then show "re_match SHA_PATTERN s" unfolding sha_match_iff by blast
qed



lemma trailing_run_of_match:
  assumes "s = p @ CHR ''@'' # h" and "set h \<subseteq> set hex_digits"
  shows "trailing_hex_run s = length h"
proof -
  have "rev s = rev h @ CHR ''@'' # rev p"
    using assms(1) by simp
  moreover have "\<forall>c\<in>set (rev h). c \<in> set hex_digits"
    using assms(2) by auto
  moreover have "CHR ''@'' \<notin> set hex_digits"
    by (simp add: hex_digits_def)
  ultimately have "takeWhile (\<lambda>c. c \<in> set hex_digits) (rev s) = rev h"
    by (simp add: takeWhile_append2 del: set_rev)
  then show ?thesis
    by (simp add: trailing_hex_run_def)
qed

text \<open>
  Claim C1, amended. For every reference string that contains no line feed, the pin test
  accepts it exactly when it is a non-empty prefix, then \<^verbatim>\<open>@\<close>, then exactly 40
  characters among \<^verbatim>\<open>0-9a-f\<close>; the prefix may hold anything else. So a reference
  whose trailing run of lowercase hexadecimal digits is not 40 long (shorter, longer, or
  cut by a capital letter) is not pinned.
\<close>

theorem pinned_iff:
  assumes "newline \<notin> set s"
  shows "sha_pattern_match (Scalar (SStr s))
           = Inr (\<exists>p h. s = p @ CHR ''@'' # h \<and> p \<noteq> [] \<and> length h = 40
                    \<and> set h \<subseteq> set hex_digits)
       \<and> (trailing_hex_run s \<noteq> 40 \<longrightarrow> sha_pattern_match (Scalar (SStr s)) = Inr False)"
proof -
  have m: "re_match SHA_PATTERN s \<longleftrightarrow>
     (\<exists>p h. s = p @ CHR ''@'' # h \<and> p \<noteq> [] \<and> length h = 40 \<and> set h \<subseteq> set hex_digits)"
    using assms by (rule sha_match_no_newline)
  have "trailing_hex_run s = 40" if "re_match SHA_PATTERN s"
  proof -
    from that m obtain p h where "s = p @ CHR ''@'' # h" "length h = 40" "set h \<subseteq> set hex_digits"
      by blast
    then show ?thesis using trailing_run_of_match by metis
  qed
  with m show ?thesis by auto
qed

text \<open>
  The theorem at a pinned reference and at a tag.
\<close>

theorem pinned_iff_witness:
  "newline \<notin> set checkout_sha
   \<and> sha_pattern_match (Scalar (SStr checkout_sha)) = Inr True
   \<and> newline \<notin> set ''actions/checkout@v4''
   \<and> trailing_hex_run ''actions/checkout@v4'' \<noteq> 40
   \<and> sha_pattern_match (Scalar (SStr ''actions/checkout@v4'')) = Inr False"
proof -
  have n1: "newline \<notin> set checkout_sha"
    by (simp add: checkout_sha_def newline_def)
  have "checkout_sha = ''actions/checkout'' @ CHR ''@'' # ''8f4b7f84864484a7bf31766abe9204da3cbe65b1''
        \<and> ''actions/checkout'' \<noteq> []
        \<and> length ''8f4b7f84864484a7bf31766abe9204da3cbe65b1'' = 40
        \<and> set ''8f4b7f84864484a7bf31766abe9204da3cbe65b1'' \<subseteq> set hex_digits"
    by (simp add: checkout_sha_def hex_digits_def)
  then have "\<exists>p h. checkout_sha = p @ CHR ''@'' # h \<and> p \<noteq> [] \<and> length h = 40
                   \<and> set h \<subseteq> set hex_digits"
    by blast
  with pinned_iff [OF n1]
  have e1: "sha_pattern_match (Scalar (SStr checkout_sha)) = Inr True"
    by simp
  have n2: "newline \<notin> set ''actions/checkout@v4''"
    by (simp add: newline_def)
  have r2: "trailing_hex_run ''actions/checkout@v4'' \<noteq> 40"
    by (simp add: trailing_hex_run_def hex_digits_def)
  from pinned_iff [OF n2] r2
  have f2: "sha_pattern_match (Scalar (SStr ''actions/checkout@v4'')) = Inr False"
    by blast
  from n1 e1 n2 r2 f2 show ?thesis
    by blast
qed

text \<open>
  Claim C1 as first stated fails twice. A reference of 40 hexadecimal digits followed by
  a line feed has no hexadecimal digit at its end, yet the pin test accepts it, since
  \<^verbatim>\<open>$\<close> also holds before a final line feed. And \<^verbatim>\<open>@\<close> followed by 40
  hexadecimal digits, with nothing before it, is not accepted, since \<^verbatim>\<open>.+\<close> needs a
  character.
\<close>

theorem pinned_iff_counterexample:
  "sha_pattern_match (Scalar (SStr (checkout_sha @ [newline]))) = Inr True
   \<and> trailing_hex_run (checkout_sha @ [newline]) = 0
   \<and> sha_pattern_match (Scalar (SStr ''@8f4b7f84864484a7bf31766abe9204da3cbe65b1''))
       = Inr False"
  by (simp add: checkout_sha_def run_defs trailing_hex_run_def hex_digits_def)

section \<open>Parse failures and unsupported documents\<close>

text \<open>
  Claim C2. A file that fails to parse should contribute no reference, with a warning,
  and the batch should go on. The code prints the warning, then reads the unassigned
  \<open>content\<close> on line 48: the run stops there with \<open>UnboundLocalError\<close> and the
  workflow listed after the broken file is never checked.
\<close>

theorem parse_failure_aborts:
  "get_uses_statements messy_repository broken_yml
     = ([Warning broken_yml ''mapping values are not allowed here''],
        Inl (Raised UnboundLocalError 48))
   \<and> validate_workflow_files messy_repository [broken_yml, ci_yml] [] False
       = ([Checking, Warning broken_yml ''mapping values are not allowed here''],
          Inl (Raised UnboundLocalError 48))"
  by (simp add: run_defs tidy_defs messy_repository_def broken_yml_def notes_yml_def)

text \<open>
  A root that is empty, or a mapping without \<^verbatim>\<open>jobs\<close> and \<^verbatim>\<open>runs\<close>, yields no
  reference.
\<close>

lemma no_jobs_no_runs:
  assumes "load w file_path = Inr content"
    and "\<not> truthy content
         \<or> (\<exists>m. content = Mapping m \<and> get_item m ''jobs'' = None \<and> get_item m ''runs'' = None)"
  shows "get_uses_statements w file_path = ([], Inr [])"
proof -
  have "scan_content content = Inr []"
    using assms(2) by (cases content) auto
  with assms(1) show ?thesis
    by (simp add: get_uses_statements_def)
qed

text \<open>
  Claim C4. A document without \<^verbatim>\<open>jobs\<close> and \<^verbatim>\<open>runs\<close> should yield no reference
  whatever its root is. When the root is a non-empty scalar, here the string
  \<^verbatim>\<open>hello\<close>, line 48 calls \<^verbatim>\<open>content.keys()\<close> on it and the run stops with
  \<open>AttributeError\<close>.
\<close>

theorem scalar_root_raises:
  "get_uses_statements messy_repository notes_yml = ([], Inl (Raised AttributeError 48))
   \<and> validate_workflow_files messy_repository [notes_yml, ci_yml] [] False
       = ([Checking], Inl (Raised AttributeError 48))"
  by (simp add: run_defs tidy_defs messy_repository_def broken_yml_def notes_yml_def)

section \<open>The classifier\<close>

lemma member_allow:
  "Scalar (SStr s) \<in> set (map (\<lambda>a. Scalar (SStr a)) allow_unpinned) \<longleftrightarrow> s \<in> set allow_unpinned"
  by auto

text \<open>
  Claim C3. For every reference string, the body of the loop does what the classifier
  of the specification decides in the order Local, Pinned, Allowed, Violation. A
  reference that is an existing directory leaves the state as it is, also when it matches
  the pin pattern; and for a reference that is a directory or matches the pin pattern, the
  allow list has no influence.
\<close>

theorem classification_order:
  "check_uses_value w allow_unpinned file_path st (Scalar (SStr s), line_num)
     = Inr (disposition_effect (classification w allow_unpinned s) file_path line_num s st)
   \<and> (isdir w s \<longrightarrow>
        check_uses_value w allow_unpinned file_path st (Scalar (SStr s), line_num) = Inr st)
   \<and> (isdir w s \<or> re_match SHA_PATTERN s \<longrightarrow>
        check_uses_value w allow_unpinned file_path st (Scalar (SStr s), line_num)
          = check_uses_value w other_allow file_path st (Scalar (SStr s), line_num))"
  unfolding check_uses_value_def classification_def
  by (simp add: member_allow del: set_map)

text \<open>
  The theorem at a directory named as a pinned reference: it is Local, and putting it
  on the allow list changes nothing.
\<close>

theorem classification_order_witness:
  "isdir local_repository pinned_dir \<and> re_match SHA_PATTERN pinned_dir
   \<and> classification local_repository [] pinned_dir = Local
   \<and> check_uses_value local_repository [] ci_yml start (Scalar (SStr pinned_dir), 5) = Inr start
   \<and> check_uses_value local_repository [] ci_yml start (Scalar (SStr pinned_dir), 5)
       = check_uses_value local_repository [pinned_dir] ci_yml start (Scalar (SStr pinned_dir), 5)"
proof -
  have d: "isdir local_repository pinned_dir"
    by (simp add: local_repository_def repository_def)
  have m: "re_match SHA_PATTERN pinned_dir"
    by (simp add: pinned_dir_def run_defs)
  from d have c: "classification local_repository [] pinned_dir = Local"
    by (simp add: classification_def)
  from d m c classification_order [of local_repository "[]" ci_yml start pinned_dir 5 "[pinned_dir]"]
  show ?thesis by blast
qed

text \<open>
  Claim C6. A reference string that is on the allow list, does not match the pin
  pattern and is not a directory adds exactly one line to the output, the
  \<^verbatim>\<open>Ignoring allowed-unpinned\<close> line; no violation line is added and the failure flag
  stays as it was.
\<close>

theorem allowed_reference:
  assumes "s \<in> set allow_unpinned" and "\<not> re_match SHA_PATTERN s" and "\<not> isdir w s"
  shows "check_uses_value w allow_unpinned file_path st (Scalar (SStr s), line_num)
           = Inr (st\<lparr>out := out st @ [IgnoringAllowed file_path line_num (Scalar (SStr s))]\<rparr>)"
  using assms unfolding check_uses_value_def
  by (simp add: member_allow del: set_map)

text \<open>The theorem at \<^verbatim>\<open>actions/checkout@v4\<close>, allowed.\<close>

theorem allowed_reference_witness:
  "''actions/checkout@v4'' \<in> set [''actions/checkout@v4'']
   \<and> \<not> re_match SHA_PATTERN ''actions/checkout@v4''
   \<and> \<not> isdir tidy_repository ''actions/checkout@v4''
   \<and> check_uses_value tidy_repository [''actions/checkout@v4''] ci_yml start
        (Scalar (SStr ''actions/checkout@v4''), 5)
       = Inr (start\<lparr>out := out start @
                [IgnoringAllowed ci_yml 5 (Scalar (SStr ''actions/checkout@v4''))]\<rparr>)"
proof -
  have a: "''actions/checkout@v4'' \<in> set [''actions/checkout@v4'']" by simp
  have m: "\<not> re_match SHA_PATTERN ''actions/checkout@v4''"
    by (simp add: run_defs)
  have d: "\<not> isdir tidy_repository ''actions/checkout@v4''"
    by (simp add: tidy_repository_def repository_def)
  from a m d allowed_reference [OF a m d, of ci_yml start 5] show ?thesis by blast
qed

text \<open>The second end-to-end scenario: one exception line, exit code 0.\<close>

lemma scenario_allowed:
  "validate_workflow_files tidy_repository [ci_yml] [''actions/checkout@v4''] True
     = ([Checking, IgnoringAllowed ci_yml 5 (Scalar (SStr ''actions/checkout@v4'')), AllPinned],
        Inr 0)"
  by (simp add: run_defs tidy_defs)

section \<open>Steps and step containers\<close>

lemma truthy_empty_value: "\<not> is_number v \<Longrightarrow> truthy v \<longleftrightarrow> \<not> empty_value v"
  by (induction v rule: empty_value.induct) simp_all

lemma scan_step_contribution:
  "is_step step \<Longrightarrow> scan_step acc step = Inr (acc @ contribution step)"
  by (cases step) (auto split: option.splits simp: truthy_empty_value)

lemma scan_steps_contributions:
  assumes "\<forall>step\<in>set steps. is_step step"
  shows "scan_steps acc steps = Inr (acc @ concat (map contribution steps))"
  using assms
proof (induction steps arbitrary: acc)
  case Nil
  then show ?case by simp
next
  case (Cons step steps)
  then have "scan_step acc step = Inr (acc @ contribution step)"
    by (simp add: scan_step_contribution)
  with Cons show ?case by simp
qed

text \<open>
  Three steps: one with a reference, one with an empty \<^verbatim>\<open>uses\<close>, one without
  \<^verbatim>\<open>uses\<close>. Only the first contributes.
\<close>

lemma scan_steps_example:
  "scan_steps [] [Mapping [(SStr ''uses'', Some 4, Scalar (SStr ''actions/checkout@v4''))],
                  Mapping [(SStr ''uses'', Some 5, Scalar (SStr []))],
                  Mapping [(SStr ''run'', Some 6, Scalar (SStr ''make''))]]
     = Inr [(Scalar (SStr ''actions/checkout@v4''), 5)]"
  by simp

lemma scan_step_data_contributions:
  assumes "is_step_container c"
  shows "scan_step_data acc c = Inr (acc @ concat (map contribution (steps_of c)))"
proof (cases c)
  case (Mapping step_data)
  show ?thesis
  proof (cases "get_item step_data ''steps''")
    case None
    with Mapping show ?thesis by simp
  next
    case (Some v)
    with assms Mapping obtain steps where v: "v = Seq steps" and s: "list_all is_step steps"
      by (cases v) auto
    from s have "\<forall>step\<in>set steps. is_step step"
      by (simp add: list_all_iff)
    then have "scan_steps acc steps = Inr (acc @ concat (map contribution steps))"
      by (rule scan_steps_contributions)
    with Mapping Some v show ?thesis by simp
  qed
qed (use assms in simp_all)

lemma scan_step_operations_contributions:
  assumes "\<forall>c\<in>set ops. is_step_container c"
  shows "scan_step_operations acc ops
           = Inr (acc @ concat (map contribution (concat (map steps_of ops))))"
  using assms
proof (induction ops arbitrary: acc)
  case Nil
  then show ?case by simp
next
  case (Cons c ops)
  then have "scan_step_data acc c = Inr (acc @ concat (map contribution (steps_of c)))"
    by (simp add: scan_step_data_contributions)
  with Cons show ?case by simp
qed

lemma step_operations_Inr_keys:
  "step_operations content = Inr ops \<Longrightarrow>
     \<not> (get_item content ''jobs'' = None \<and> get_item content ''runs'' = None)"
  by (auto simp: step_operations_def split: option.splits)

lemma step_operations_nonempty:
  "step_operations content = Inr ops \<Longrightarrow> content \<noteq> []"
  by (auto simp: step_operations_def)

lemma get_uses_statements_ops:
  assumes "load w file_path = Inr (Mapping content)" and "step_operations content = Inr ops"
  shows "get_uses_statements w file_path = ([], scan_step_operations [] ops)"
proof -
  have "\<not> (get_item content ''jobs'' = None \<and> get_item content ''runs'' = None)"
    using assms(2) by (rule step_operations_Inr_keys)
  moreover have "content \<noteq> []"
    using assms(2) by (rule step_operations_nonempty)
  ultimately have "scan_content (Mapping content) = scan_step_operations [] ops"
    using assms(2) by auto
  with assms(1) show ?thesis
    by (simp add: get_uses_statements_def)
qed

text \<open>
  Claim C7. Let a file load to a mapping whose step containers \<open>ops\<close> follow the data
  model. Then extraction returns, and its output is made of the contributions of the
  scanned steps, in order: a step contributes its \<^verbatim>\<open>uses\<close> value with its line when it
  has a \<^verbatim>\<open>uses\<close> field whose value is not empty, and nothing when the field is missing
  or empty.
\<close>

theorem step_contributes:
  assumes "load w file_path = Inr (Mapping content)"
    and "step_operations content = Inr ops"
    and "\<forall>c\<in>set ops. is_step_container c"
  shows "get_uses_statements w file_path
           = ([], Inr (concat (map contribution (concat (map steps_of ops)))))"
  unfolding get_uses_statements_ops [OF assms(1,2)]
  using scan_step_operations_contributions [OF assms(3), of "[]"] by simp

text \<open>
  The theorem at the example workflow: the step with a reference contributes it with
  line 5, the step without \<^verbatim>\<open>uses\<close> contributes nothing.
\<close>

theorem step_contributes_witness:
  "load tidy_repository ci_yml = Inr ci_doc
   \<and> step_operations [(SStr ''name'', Some 0, Scalar (SStr ''ci'')),
                       (SStr ''jobs'', Some 1, Mapping [(SStr ''build'', Some 2, build_job)])]
       = Inr [build_job]
   \<and> is_step_container build_job
   \<and> contribution (Mapping [(SStr ''uses'', Some 4, Scalar (SStr ''actions/checkout@v4''))])
       = [(Scalar (SStr ''actions/checkout@v4''), 5)]
   \<and> contribution (Mapping [(SStr ''run'', Some 5, Scalar (SStr ''make''))]) = []
   \<and> get_uses_statements tidy_repository ci_yml
       = ([], Inr [(Scalar (SStr ''actions/checkout@v4''), 5)])"
proof -
  have l: "load tidy_repository ci_yml
     = Inr (Mapping [(SStr ''name'', Some 0, Scalar (SStr ''ci'')),
                     (SStr ''jobs'', Some 1, Mapping [(SStr ''build'', Some 2, build_job)])])"
    by (simp add: tidy_defs)
  have o: "step_operations [(SStr ''name'', Some 0, Scalar (SStr ''ci'')),
                       (SStr ''jobs'', Some 1, Mapping [(SStr ''build'', Some 2, build_job)])]
       = Inr [build_job]"
    by (simp add: step_operations_def)
  have c: "is_step_container build_job"
    by (simp add: build_job_def)
  then have a: "\<forall>c\<in>set [build_job]. is_step_container c"
    by simp
  from l o c step_contributes [OF l o a] show ?thesis
    by (simp add: build_job_def ci_doc_def)
qed

lemma scan_step_not_58: "scan_step acc step \<noteq> Inl (Raised AttributeError 58)"
  by (cases step) (auto split: option.splits)

lemma scan_steps_not_58: "scan_steps acc steps \<noteq> Inl (Raised AttributeError 58)"
proof (induction steps arbitrary: acc)
  case Nil
  then show ?case by simp
next
  case (Cons step steps)
  then show ?case
    using scan_step_not_58 [of acc step] by (auto split: sum.splits)
qed

lemma iterate_not_58: "iterate v \<noteq> Inl (Raised AttributeError 58)"
  by (induction v rule: iterate.induct) simp_all

lemma scan_step_data_mapping_not_58:
  "is_mapping step_data \<Longrightarrow> scan_step_data acc step_data \<noteq> Inl (Raised AttributeError 58)"
  using iterate_not_58 scan_steps_not_58
  by (cases step_data) (auto split: sum.splits)

lemma scan_step_data_not_mapping:
  "\<not> is_mapping step_data \<Longrightarrow> scan_step_data acc step_data = Inl (Raised AttributeError 58)"
  by (cases step_data) auto

lemma scan_step_operations_mappings:
  "\<forall>c\<in>set ops. is_mapping c \<Longrightarrow> scan_step_operations acc ops \<noteq> Inl (Raised AttributeError 58)"
proof (induction ops arbitrary: acc)
  case Nil
  then show ?case by simp
next
  case (Cons c ops)
  then show ?case
    using scan_step_data_mapping_not_58 [of c acc] by (auto split: sum.splits)
qed

lemma scan_step_operations_raises:
  "\<exists>c\<in>set ops. \<not> is_mapping c \<Longrightarrow> \<exists>e. scan_step_operations acc ops = Inl e"
proof (induction ops arbitrary: acc)
  case Nil
  then show ?case by simp
next
  case (Cons c ops)
  show ?case
  proof (cases "scan_step_data acc c")
    case (Inl e)
    then show ?thesis by simp
  next
    case (Inr acc')
    then have "is_mapping c"
      using scan_step_data_not_mapping [of c acc] by auto
    with Cons.prems have "\<exists>c\<in>set ops. \<not> is_mapping c" by simp
    then have "\<exists>e. scan_step_operations acc' ops = Inl e" by (rule Cons.IH)
    with Inr show ?thesis by simp
  qed
qed

text \<open>
  Claim C10. Let a file load to a mapping whose step containers are \<open>ops\<close>: the value
  of \<^verbatim>\<open>runs\<close> or, without \<^verbatim>\<open>runs\<close>, the values inside \<^verbatim>\<open>jobs\<close>. If one of them is
  not a mapping, extraction raises an exception and returns no list; if all of them are
  mappings, the \<open>AttributeError\<close> of \<^verbatim>\<open>step_data.get\<close> on line 58 is never raised.
\<close>

theorem step_container_mapping:
  assumes "load w file_path = Inr (Mapping content)" and "step_operations content = Inr ops"
  shows "((\<exists>c\<in>set ops. \<not> is_mapping c) \<longrightarrow>
            (\<exists>e. snd (get_uses_statements w file_path) = Inl e))
       \<and> ((\<forall>c\<in>set ops. is_mapping c) \<longrightarrow>
            snd (get_uses_statements w file_path) \<noteq> Inl (Raised AttributeError 58))"
  unfolding get_uses_statements_ops [OF assms]
  using scan_step_operations_raises [of ops "[]"] scan_step_operations_mappings [of ops "[]"]
  by simp

text \<open>
  The theorem at an action file whose \<^verbatim>\<open>runs\<close> value is a string, where extraction
  raises, and at a workflow whose only job is a mapping.
\<close>

theorem step_container_mapping_witness:
  "load action_repository action_yml = Inr action_doc
   \<and> step_operations [(SStr ''runs'', Some 0, Scalar (SStr ''composite''))]
       = Inr [Scalar (SStr ''composite'')]
   \<and> \<not> is_mapping (Scalar (SStr ''composite''))
   \<and> snd (get_uses_statements action_repository action_yml) = Inl (Raised AttributeError 58)
   \<and> load action_repository ci_yml = Inr ci_doc
   \<and> step_operations [(SStr ''name'', Some 0, Scalar (SStr ''ci'')),
                       (SStr ''jobs'', Some 1, Mapping [(SStr ''build'', Some 2, build_job)])]
       = Inr [build_job]
   \<and> is_mapping build_job
   \<and> snd (get_uses_statements action_repository ci_yml) \<noteq> Inl (Raised AttributeError 58)"
proof -
  have l1: "load action_repository action_yml
              = Inr (Mapping [(SStr ''runs'', Some 0, Scalar (SStr ''composite''))])"
    by (simp add: action_repository_def action_yml_def action_doc_def tidy_defs)
  have o1: "step_operations [(SStr ''runs'', Some 0, Scalar (SStr ''composite''))]
              = Inr [Scalar (SStr ''composite'')]"
    by (simp add: step_operations_def)
  have m1: "\<not> is_mapping (Scalar (SStr ''composite''))" by simp
  then have n1: "\<exists>c\<in>set [Scalar (SStr ''composite'')]. \<not> is_mapping c" by simp
  have e1: "snd (get_uses_statements action_repository action_yml)
              = Inl (Raised AttributeError 58)"
    by (simp add: action_repository_def action_yml_def action_doc_def tidy_defs run_defs)
  have l2: "load action_repository ci_yml
      = Inr (Mapping [(SStr ''name'', Some 0, Scalar (SStr ''ci'')),
                      (SStr ''jobs'', Some 1, Mapping [(SStr ''build'', Some 2, build_job)])])"
    by (simp add: action_repository_def action_yml_def action_doc_def tidy_defs)
  have o2: "step_operations [(SStr ''name'', Some 0, Scalar (SStr ''ci'')),
                       (SStr ''jobs'', Some 1, Mapping [(SStr ''build'', Some 2, build_job)])]
          = Inr [build_job]"
    by (simp add: step_operations_def)
  have m2: "is_mapping build_job"
    by (simp add: build_job_def)
  then have n2: "\<forall>c\<in>set [build_job]. is_mapping c" by simp
  from step_container_mapping [OF l2 o2] n2
  have r2: "snd (get_uses_statements action_repository ci_yml) \<noteq> Inl (Raised AttributeError 58)"
    by blast
  from step_container_mapping [OF l1 o1] n1
  have "\<exists>e. snd (get_uses_statements action_repository action_yml) = Inl e"
    by blast
  with l1 l2 o1 o2 m1 m2 e1 r2 show ?thesis
    by (simp add: action_doc_def ci_doc_def)
qed

section \<open>The run\<close>











text \<open>The first and the fifth end-to-end scenario, in full.\<close>

lemma scenario_violation:
  "validate_workflow_files tidy_repository [ci_yml] [] True
     = ([Checking, NotPinned ci_yml 5 (Scalar (SStr ''actions/checkout@v4'')),
         SomeUnpinned, BestPractice], Inr 1)
   \<and> validate_workflow_files tidy_repository [ci_yml] [] False
     = ([Checking, NotPinned ci_yml 5 (Scalar (SStr ''actions/checkout@v4'')),
         SomeUnpinned, BestPractice], Inr 0)"
  by (simp add: run_defs tidy_defs)

lemma check_files_filter:
  "check_files w allow_unpinned st files
     = check_files w allow_unpinned st (filter (\<lambda>p. \<not> skipped w p) files)"
proof (induction files arbitrary: st)
  case Nil
  then show ?case by simp
next
  case (Cons file_path files)
  then show ?case
    by (cases "skipped w file_path") (auto split: prod.splits sum.splits option.splits)
qed

lemma skipped_iff:
  "skipped w p \<longleftrightarrow>
     \<not> ((str_contains ''.github/workflows'' p \<or> str_contains ''.github/actions'' p) \<and> isfile w p)"
  by (auto simp: skipped_def)

text \<open>
  Claim C8, amended. When the environment variable \<^verbatim>\<open>ALL_CHANGED_FILES\<close> is unset or
  empty, the candidates are every \<^verbatim>\<open>*.yml\<close> path found below \<^verbatim>\<open>.github/workflows\<close>
  followed by every one found below \<^verbatim>\<open>.github/actions\<close>. The loop over the candidates
  is the loop over those among them whose path contains \<^verbatim>\<open>.github/workflows\<close> or
  \<^verbatim>\<open>.github/actions\<close> and that are files on disk: the others are skipped.
\<close>

theorem discovery_fallback:
  assumes "environ_get env ''ALL_CHANGED_FILES'' [] = []"
  shows "candidates w (main_changed_files env)
           = rglob w ''.github/workflows'' @ rglob w ''.github/actions''
       \<and> check_files w allow_unpinned st files
           = check_files w allow_unpinned st
               (filter (\<lambda>p. (str_contains ''.github/workflows'' p
                              \<or> str_contains ''.github/actions'' p) \<and> isfile w p) files)"
proof -
  have "main_changed_files env = []"
    using assms by (simp add: main_changed_files_def str_split_def)
  then have "candidates w (main_changed_files env)
           = rglob w ''.github/workflows'' @ rglob w ''.github/actions''"
    by (simp add: candidates_def)
  moreover have "check_files w allow_unpinned st files
           = check_files w allow_unpinned st
               (filter (\<lambda>p. (str_contains ''.github/workflows'' p
                              \<or> str_contains ''.github/actions'' p) \<and> isfile w p) files)"
    using check_files_filter [of w allow_unpinned st files] by (simp add: skipped_iff)
  ultimately show ?thesis by simp
qed

text \<open>
  The theorem where only \<^verbatim>\<open>CHANGED_FILES\<close> is set: the workflow is discovered, and
  of three candidates the one outside the two directories and the one that is not on disk
  are skipped.
\<close>

theorem discovery_fallback_witness:
  "environ_get [''CHANGED_FILES'' \<mapsto> ''README.md''] ''ALL_CHANGED_FILES'' [] = []
   \<and> candidates tidy_repository (main_changed_files [''CHANGED_FILES'' \<mapsto> ''README.md''])
       = [ci_yml]
   \<and> check_files tidy_repository [] start [''README.md'', broken_yml, ci_yml]
       = check_files tidy_repository [] start [ci_yml]"
proof -
  have h: "environ_get [''CHANGED_FILES'' \<mapsto> ''README.md''] ''ALL_CHANGED_FILES'' [] = []"
    by (simp add: environ_get_def)
  from h discovery_fallback [OF h, of tidy_repository "[]" start "[''README.md'', broken_yml, ci_yml]"]
  show ?thesis by (simp add: tidy_defs broken_yml_def)
qed

text \<open>
  Claim C8 as first stated fails: with \<^verbatim>\<open>CHANGED_FILES\<close> empty and
  \<^verbatim>\<open>ALL_CHANGED_FILES\<close> naming a file, the candidates are that file and not the
  workflow that discovery would find, so the run checks nothing.
\<close>

theorem discovery_counterexample:
  "environ_get [''CHANGED_FILES'' \<mapsto> [], ''ALL_CHANGED_FILES'' \<mapsto> ''README.md'']
     ''CHANGED_FILES'' [] = []
   \<and> candidates tidy_repository
       (main_changed_files [''CHANGED_FILES'' \<mapsto> [], ''ALL_CHANGED_FILES'' \<mapsto> ''README.md''])
       = [''README.md'']
   \<and> rglob tidy_repository ''.github/workflows'' @ rglob tidy_repository ''.github/actions''
       = [ci_yml]
   \<and> main tidy_repository [''CHANGED_FILES'' \<mapsto> [], ''ALL_CHANGED_FILES'' \<mapsto> ''README.md'']
       = ([Checking, AllPinned], Inr 0)"
  by (simp add: run_defs tidy_defs environ_get_def main_def main_changed_files_def
        main_allow_unpinned_def main_fail_on_error_def str_split_def str_strip_def
        str_lower_def is_space_def)

lemma check_uses_value_cong:
  assumes "isdir w = isdir w'" and "fd_isdir w = fd_isdir w'"
  shows "check_uses_value w allow_unpinned file_path st u
           = check_uses_value w' allow_unpinned file_path st u"
proof -
  have "os_path_isdir w v = os_path_isdir w' v" for v
    using assms by (induction w v rule: os_path_isdir.induct) simp_all
  then show ?thesis by (simp add: check_uses_value_def)
qed

lemma check_uses_cong:
  assumes "isdir w = isdir w'" and "fd_isdir w = fd_isdir w'"
  shows "check_uses w allow_unpinned file_path st us = check_uses w' allow_unpinned file_path st us"
  by (induction us arbitrary: st)
     (simp_all add: check_uses_value_cong [OF assms] split: sum.splits)

lemma check_files_cong:
  assumes "isdir w = isdir w'" and "fd_isdir w = fd_isdir w'"
    and "\<forall>p\<in>set files. isfile w p = isfile w' p \<and> (isfile w p \<longrightarrow> load w p = load w' p)"
  shows "check_files w allow_unpinned st files = check_files w' allow_unpinned st files"
  using assms(3)
proof (induction files arbitrary: st)
  case Nil
  then show ?case by simp
next
  case (Cons file_path files)
  then have f: "isfile w file_path = isfile w' file_path"
    and l: "isfile w file_path \<longrightarrow> load w file_path = load w' file_path"
    and rest: "\<forall>p\<in>set files. isfile w p = isfile w' p \<and> (isfile w p \<longrightarrow> load w p = load w' p)"
    by simp_all
  from f have s: "skipped w file_path = skipped w' file_path"
    by (simp add: skipped_def)
  show ?case
  proof (cases "skipped w file_path")
    case True
    with s Cons.IH [OF rest] show ?thesis by simp
  next
    case False
    then have "isfile w file_path" by (auto simp: skipped_def split: if_splits)
    with l have "get_uses_statements w file_path = get_uses_statements w' file_path"
      by (simp add: get_uses_statements_def)
    with False s Cons.IH [OF rest] check_uses_cong [OF assms(1,2)] show ?thesis
      by (simp split: prod.splits sum.splits option.splits)
  qed
qed

text \<open>
  Claim C9. The run is a function of what it reads. Two runs with the same candidate
  list, allow list and flag give the same lines and the same result when the two file
  systems agree on what is a directory, on what discovery finds, on which candidates are
  files and on what loading each candidate file returns.
\<close>

theorem same_inputs_same_run:
  assumes "isdir w = isdir w'" and "fd_isdir w = fd_isdir w'"
    and "rglob w ''.github/workflows'' = rglob w' ''.github/workflows''"
    and "rglob w ''.github/actions'' = rglob w' ''.github/actions''"
    and "\<forall>p\<in>set (candidates w changed_files).
            isfile w p = isfile w' p \<and> (isfile w p \<longrightarrow> load w p = load w' p)"
  shows "validate_workflow_files w changed_files allow_unpinned fail_on_error
           = validate_workflow_files w' changed_files allow_unpinned fail_on_error"
proof -
  have c: "candidates w changed_files = candidates w' changed_files"
    using assms(3,4) by (simp add: candidates_def)
  have "check_files w allow_unpinned st (candidates w changed_files)
          = check_files w' allow_unpinned st (candidates w changed_files)" for st
    using assms(1,2,5) by (rule check_files_cong)
  then have ch: "check_files w allow_unpinned st (candidates w' changed_files)
          = check_files w' allow_unpinned st (candidates w' changed_files)" for st
    by (simp only: c)
  show ?thesis
    unfolding validate_workflow_files_def c ch by (rule refl)
qed

text \<open>
  The theorem at two repositories that differ in a file the run never reads.
\<close>

theorem same_inputs_same_run_witness:
  "isdir tidy_repository = isdir extended_repository
   \<and> fd_isdir tidy_repository = fd_isdir extended_repository
   \<and> rglob tidy_repository ''.github/workflows'' = rglob extended_repository ''.github/workflows''
   \<and> rglob tidy_repository ''.github/actions'' = rglob extended_repository ''.github/actions''
   \<and> candidates tidy_repository [] = [ci_yml]
   \<and> isfile tidy_repository ci_yml = isfile extended_repository ci_yml
   \<and> load tidy_repository ci_yml = load extended_repository ci_yml
   \<and> load tidy_repository ''docs/notes.yml'' \<noteq> load extended_repository ''docs/notes.yml''
   \<and> validate_workflow_files tidy_repository [] [] True
       = validate_workflow_files extended_repository [] [] True"
proof -
  have 1: "isdir tidy_repository = isdir extended_repository"
    by (simp add: tidy_defs extended_repository_def)
  have 2: "fd_isdir tidy_repository = fd_isdir extended_repository"
    by (simp add: tidy_defs extended_repository_def)
  have 3: "rglob tidy_repository ''.github/workflows'' = rglob extended_repository ''.github/workflows''"
    by (simp add: tidy_defs extended_repository_def)
  have 4: "rglob tidy_repository ''.github/actions'' = rglob extended_repository ''.github/actions''"
    by (simp add: tidy_defs extended_repository_def)
  have c: "candidates tidy_repository [] = [ci_yml]"
    by (simp add: tidy_defs candidates_def)
  have f: "isfile tidy_repository ci_yml = isfile extended_repository ci_yml"
    by (simp add: tidy_defs extended_repository_def)
  have l: "load tidy_repository ci_yml = load extended_repository ci_yml"
    by (simp add: tidy_defs extended_repository_def)
  have d: "load tidy_repository ''docs/notes.yml'' \<noteq> load extended_repository ''docs/notes.yml''"
    by (simp add: tidy_defs extended_repository_def)
  from c f l have 5: "\<forall>p\<in>set (candidates tidy_repository []).
         isfile tidy_repository p = isfile extended_repository p
         \<and> (isfile tidy_repository p \<longrightarrow> load tidy_repository p = load extended_repository p)"
    by simp
  from 1 2 3 4 c f l d same_inputs_same_run [OF 1 2 3 4 5, of "[]" True] show ?thesis by blast
qed

end
